theory Spec2Isabelle
  imports Main "HOL-Library.Char_ord" "HOL-Library.List_Lexorder" "HOL-Library.AList"
begin

section \<open>Python strings\<close>

text \<open>
  A Python \<open>str\<close> is modelled as a \<^typ>\<open>string\<close>; each \<^typ>\<open>char\<close> stands for the code
  point of the same number (0 to 255). The order on characters (\<open>Char_ord\<close>) is the order
  of code points and the order on strings (\<open>List_Lexorder\<close>) is the lexicographic one, as
  Python compares \<open>str\<close> values.
\<close>

text \<open>\<open>str.isspace\<close> on one character, as used by \<open>str.strip()\<close> and \<open>str.split()\<close>:
  the white space of the code points below 256.\<close>

definition is_space :: "char \<Rightarrow> bool" where
  "is_space c \<longleftrightarrow>
     c \<in> set [CHR 0x09, CHR 0x0A, CHR 0x0B, CHR 0x0C, CHR 0x0D, CHR 0x1C, CHR 0x1D, CHR 0x1E,
              CHR 0x1F, CHR 0x20, CHR 0x85, CHR 0xA0]"

text \<open>The class \<open>\d\<close> of \<open>re\<close>: the decimal digits of the code points below 256.\<close>

definition is_digit :: "char \<Rightarrow> bool" where
  "is_digit c \<longleftrightarrow> c \<in> set ''0123456789''"

text \<open>\<open>s.strip()\<close>\<close>

definition strip :: "string \<Rightarrow> string" where
  "strip s = rev (dropWhile is_space (rev (dropWhile is_space s)))"

text \<open>\<open>s.split()\<close>: the maximal runs of characters that are not white space.\<close>

lemma next_field_shorter:
  assumes "dropWhile is_space s \<noteq> []"
  shows "length (dropWhile (\<lambda>c. \<not> is_space c) (dropWhile is_space s)) < length s"
proof -
  from assms obtain x xs where x: "dropWhile is_space s = x # xs"
    by (cases "dropWhile is_space s") auto
  have "\<not> is_space (hd (dropWhile is_space s))"
    using assms by (rule hd_dropWhile)
  then have "\<not> is_space x"
    using x by simp
  then have "dropWhile (\<lambda>c. \<not> is_space c) (x # xs) = dropWhile (\<lambda>c. \<not> is_space c) xs"
    by simp
  moreover have "length (dropWhile (\<lambda>c. \<not> is_space c) xs) \<le> length xs"
    by (rule length_dropWhile_le)
  moreover have "length (x # xs) \<le> length s"
    using length_dropWhile_le [of is_space s] x by simp
  ultimately show ?thesis
    using x by simp
qed

function split_ws :: "string \<Rightarrow> string list" where
  "split_ws s =
     (let s' = dropWhile is_space s
      in if s' = [] then []
         else takeWhile (\<lambda>c. \<not> is_space c) s' # split_ws (dropWhile (\<lambda>c. \<not> is_space c) s'))"
  by pat_completeness auto
termination
proof (relation "measure length")
  fix s s' :: string
  assume "s' = dropWhile is_space s" and "s' \<noteq> []"
  then have "length (dropWhile (\<lambda>c. \<not> is_space c) s') < length s"
    using next_field_shorter [of s] by simp
  then show "(dropWhile (\<lambda>c. \<not> is_space c) s', s) \<in> measure length"
    by simp
qed simp

declare split_ws.simps [simp del]

text \<open>\<open>s.startswith(p)\<close>\<close>

definition startswith :: "string \<Rightarrow> string \<Rightarrow> bool" where
  "startswith s p = (take (length p) s = p)"

text \<open>
  \<open>re.sub(r':\d+$', '', s)\<close>. The pattern matches at a colon that is followed by one or
  more digits and then by the end of the string (for \<open>$\<close>, also by a final newline).
  The leftmost match is replaced by the empty string; the search then goes on after the
  match, where only the end of the string or that final newline is left.
\<close>

fun re_sub_port :: "string \<Rightarrow> string" where
  "re_sub_port [] = []"
| "re_sub_port (c # cs) =
     (if c = CHR '':'' \<and> takeWhile is_digit cs \<noteq> [] \<and>
         (dropWhile is_digit cs = [] \<or> dropWhile is_digit cs = [CHR 0x0A])
      then dropWhile is_digit cs
      else c # re_sub_port cs)"

section \<open>Line-to-token filters\<close>

text \<open>A generator is modelled by the list of the values it yields, in order.\<close>

definition hosts_from_config_lines :: "string \<Rightarrow> string list" where
  "hosts_from_config_lines line =
     (let parts = split_ws (strip line)
      in if length parts > 1 \<and> parts ! 0 = ''Host'' then [parts ! 1] else [])"

definition hosts_from_known_hosts :: "string \<Rightarrow> string list" where
  "hosts_from_known_hosts line =
     (let parts = split_ws (strip line)
      in if parts \<noteq> [] then [re_sub_port (parts ! 0)] else [])"

definition hosts_from_hosts :: "string \<Rightarrow> string list" where
  "hosts_from_hosts line0 =
     (let line = strip line0
      in if \<not> startswith line ''#'' then
           (let parts = split_ws line
            in (if parts \<noteq> [] then [parts ! 0] else []) @
               (if length parts > 1 then [parts ! 1] else []) @
               (if length parts > 2 then [parts ! 2] else []))
         else [])"

section \<open>Errors, dictionaries and the environment\<close>

text \<open>The exceptions that can reach this code.\<close>

datatype py_error = OSError | UnicodeDecodeError | CalledProcessError | IndexError

text \<open>
  A Python \<open>dict\<close> keeps its keys in insertion order: an association list with distinct
  keys, where \<open>d[k] = v\<close> replaces the value of a key that is present and appends a new
  key at the end (\<^const>\<open>AList.update\<close>).
\<close>

type_synonym ('k, 'v) dict = "('k \<times> 'v) list"

text \<open>\<open>d.get(k)\<close>, with \<open>None\<close> for a missing key.\<close>

definition dict_get :: "('k, 'v) dict \<Rightarrow> 'k \<Rightarrow> 'v option" where
  "dict_get d k = map_of d k"

text \<open>\<open>d.update(other)\<close>\<close>

definition dict_update :: "('k, 'v) dict \<Rightarrow> ('k, 'v) dict \<Rightarrow> ('k, 'v) dict" where
  "dict_update d other = fold (\<lambda>(k, v) acc. AList.update k v acc) other d"

text \<open>\<open>dict.fromkeys(ks, v)\<close>\<close>

definition dict_fromkeys :: "'k list \<Rightarrow> 'v \<Rightarrow> ('k, 'v) dict" where
  "dict_fromkeys ks v = fold (\<lambda>k acc. AList.update k v acc) ks []"

text \<open>A dict comprehension \<open>{k: v for ...}\<close> over the listed pairs, in order.\<close>

definition dict_of :: "('k \<times> 'v) list \<Rightarrow> ('k, 'v) dict" where
  "dict_of ps = fold (\<lambda>(k, v) acc. AList.update k v acc) ps []"

text \<open>
  What the code reads from outside. \<open>files path\<close> is what \<open>open(path)\<close> and the iteration
  over the file do: \<open>open\<close> raises \<open>OSError\<close> (\<open>Unreadable\<close>), or the file yields its
  lines and then either ends or raises while a later line is read or decoded.
  \<open>commands argv\<close> is the outcome of \<open>subprocess.check_output(argv).decode('utf-8')\<close>, and
  \<open>ssh_stderr\<close> that of \<open>subprocess.Popen(['ssh'], stderr=PIPE).stderr.read().decode('utf-8')\<close>:
  the exception raised (the program cannot be started, the bytes are not UTF-8, for
  \<open>check_output\<close> also a non-zero exit status), or the decoded text.
\<close>

datatype file_state = Unreadable | Readable "string list" "py_error option"

record environment =
  files :: "string \<Rightarrow> file_state"
  commands :: "string list \<Rightarrow> py_error + string"
  ssh_stderr :: "py_error + string"

section \<open>Line sources\<close>

text \<open>
  A generator that is consumed to its end is modelled by the list of the values it
  yields, or by the exception that ends it.
\<close>

definition lines_from_file :: "environment \<Rightarrow> string \<Rightarrow> py_error + string list" where
  "lines_from_file env path =
     (case files env path of
        Unreadable \<Rightarrow> Inr []
      | Readable ls None \<Rightarrow> Inr ls
      | Readable ls (Some e) \<Rightarrow> Inl e)"

text \<open>The line boundaries of \<open>str.splitlines()\<close> among the code points below 256.\<close>

definition is_linebreak :: "char \<Rightarrow> bool" where
  "is_linebreak c \<longleftrightarrow>
     c \<in> set [CHR 0x0A, CHR 0x0B, CHR 0x0C, CHR 0x0D, CHR 0x1C, CHR 0x1D, CHR 0x1E, CHR 0x85]"

text \<open>\<open>s.splitlines()\<close>; \<open>cur\<close> is the part of the current line read so far.\<close>

fun splitlines_from :: "string \<Rightarrow> string \<Rightarrow> string list" where
  "splitlines_from cur [] = (if cur = [] then [] else [cur])"
| "splitlines_from cur [c] = (if is_linebreak c then [cur] else [cur @ [c]])"
| "splitlines_from cur (c # d # cs) =
     (if c = CHR 0x0D \<and> d = CHR 0x0A then cur # splitlines_from [] cs
      else if is_linebreak c then cur # splitlines_from [] (d # cs)
      else splitlines_from (cur @ [c]) (d # cs))"

definition splitlines :: "string \<Rightarrow> string list" where
  "splitlines s = splitlines_from [] s"

definition lines_from_command :: "environment \<Rightarrow> string list \<Rightarrow> py_error + string list" where
  "lines_from_command env cmd =
     (case commands env cmd of
        Inl e \<Rightarrow> Inr []
      | Inr output \<Rightarrow> Inr (splitlines output))"

definition parts_yielder ::
    "py_error + string list \<Rightarrow> (string \<Rightarrow> string list) \<Rightarrow> py_error + string list" where
  "parts_yielder lines pfilter =
     (case lines of
        Inl e \<Rightarrow> Inl e
      | Inr ls \<Rightarrow> Inr (concat (map pfilter ls)))"

section \<open>Host aggregation\<close>

text \<open>One \<open>yield from\<close> after another: the first exception ends the generator.\<close>

definition yield_from ::
    "py_error + string list \<Rightarrow> py_error + string list \<Rightarrow> py_error + string list" where
  "yield_from a b =
     (case a of
        Inl e \<Rightarrow> Inl e
      | Inr xs \<Rightarrow> (case b of Inl e \<Rightarrow> Inl e | Inr ys \<Rightarrow> Inr (xs @ ys)))"

definition iter_known_hosts :: "environment \<Rightarrow> py_error + string list" where
  "iter_known_hosts env =
     yield_from (parts_yielder (lines_from_file env ''~/.ssh/config'') hosts_from_config_lines)
    (yield_from (parts_yielder (lines_from_file env ''~/.ssh/known_hosts'') hosts_from_known_hosts)
    (yield_from (parts_yielder (lines_from_file env ''/etc/ssh/ssh_known_hosts'') hosts_from_known_hosts)
    (yield_from (parts_yielder (lines_from_file env ''/etc/hosts'') hosts_from_hosts)
                (parts_yielder (lines_from_command env [''getent'', ''hosts'']) hosts_from_hosts))))"

text \<open>
  \<open>tuple(sorted(filter(..., set(...))))\<close>. The set is listed without duplicates
  (\<^const>\<open>remdups\<close>); the order in which Python walks it is lost by the sort.
\<close>

definition known_hosts :: "environment \<Rightarrow> py_error + string list" where
  "known_hosts env =
     (case iter_known_hosts env of
        Inl e \<Rightarrow> Inl e
      | Inr toks \<Rightarrow>
          Inr (sort (filter (\<lambda>x. CHR ''*'' \<notin> set x \<and> CHR ''['' \<notin> set x) (remdups toks))))"

section \<open>Option table\<close>

text \<open>\<open>raw.find(c, pos)\<close> for a single character; \<open>None\<close> stands for \<open>-1\<close>.\<close>

function str_find :: "string \<Rightarrow> char \<Rightarrow> nat \<Rightarrow> nat option" where
  "str_find raw c pos =
     (if pos \<ge> length raw then None
      else if raw ! pos = c then Some pos
      else str_find raw c (Suc pos))"
  by pat_completeness auto
termination
  by (relation "measure (\<lambda>(raw, c, pos). length raw - pos)") auto

declare str_find.simps [simp del]

text \<open>
  The inner loop \<open>while num > 0\<close> of \<open>ssh_options\<close>: \<open>raw[epos]\<close> raises \<open>IndexError\<close> when
  \<open>epos\<close> has reached the length of the text.
\<close>

function scan_group :: "string \<Rightarrow> int \<Rightarrow> nat \<Rightarrow> py_error + nat" where
  "scan_group raw num epos =
     (if num > 0 then
        (let epos' = epos + 1
         in if epos' \<ge> length raw then Inl IndexError
            else if raw ! epos' \<noteq> CHR ''['' \<and> raw ! epos' \<noteq> CHR '']'' then scan_group raw num epos'
            else scan_group raw (num + (if raw ! epos' = CHR ''['' then 1 else - 1)) epos')
      else Inr epos)"
  by pat_completeness auto
termination
  by (relation "measure (\<lambda>(raw, num, epos). length raw - epos)") auto

declare scan_group.simps [simp del]

text \<open>The body of the outer loop after \<open>pos = epos\<close>, for the group text \<open>q\<close>.\<close>

definition store_group :: "string \<Rightarrow> (string, string) dict \<Rightarrow> (string, string) dict" where
  "store_group q ans =
     (if length q < 2 \<or> q ! 0 \<noteq> CHR ''-'' then ans
      else if CHR '' '' \<in> set q then
        (let opt = takeWhile (\<lambda>c. c \<noteq> CHR '' '') q;
             desc = drop 1 (dropWhile (\<lambda>c. c \<noteq> CHR '' '') q)
         in AList.update (drop 1 opt) desc ans)
      else dict_update ans (dict_fromkeys (map (\<lambda>c. [c]) (drop 1 q)) ''''))"

lemma str_find_bounds: "str_find raw c pos = Some p \<Longrightarrow> pos \<le> p \<and> p < length raw"
proof (induction raw c pos rule: str_find.induct)
  case (1 raw c pos)
  from "1.prems" have "pos < length raw"
    by (subst (asm) str_find.simps) (simp split: if_splits)
  show ?case
  proof (cases "raw ! pos = c")
    case True
    with \<open>pos < length raw\<close> "1.prems" show ?thesis
      by (subst (asm) str_find.simps) simp
  next
    case False
    with \<open>pos < length raw\<close> "1.prems" have "str_find raw c (Suc pos) = Some p"
      by (subst (asm) str_find.simps) simp
    with "1.IH" False \<open>pos < length raw\<close> show ?thesis
      by simp
  qed
qed

lemma scan_group_bounds:
  "scan_group raw num epos = Inr e \<Longrightarrow> 0 < num \<Longrightarrow> epos < e \<and> e < length raw"
proof (induction raw num epos rule: scan_group.induct)
  case (1 raw num epos)
  show ?case
  proof (cases "Suc epos \<ge> length raw")
    case True
    with "1.prems" show ?thesis
      by (subst (asm) scan_group.simps) simp
  next
    case False
    show ?thesis
    proof (cases "raw ! Suc epos \<noteq> CHR ''['' \<and> raw ! Suc epos \<noteq> CHR '']''")
      case True
      with False "1.prems" have "scan_group raw num (Suc epos) = Inr e"
        by (subst (asm) scan_group.simps) simp
      with "1.IH"(1) [of "epos + 1"] False True "1.prems"(2) show ?thesis
        by simp
    next
      case nb: False
      let ?num' = "num + (if raw ! Suc epos = CHR ''['' then 1 else - 1)"
      from False nb "1.prems" have r: "scan_group raw ?num' (Suc epos) = Inr e"
        by (subst (asm) scan_group.simps) (auto simp: Let_def split: if_splits)
      show ?thesis
      proof (cases "0 < ?num'")
        case True
        with "1.IH"(2) [of "epos + 1"] False nb "1.prems"(2) r show ?thesis
          by simp
      next
        case z: False
        with r have "e = Suc epos"
          by (subst (asm) scan_group.simps) simp
        with False show ?thesis by simp
      qed
    qed
  qed
qed

text \<open>The outer loop \<open>while True\<close> of \<open>ssh_options\<close>, from position \<open>pos0\<close> with table \<open>ans\<close>.\<close>

function parse_groups ::
    "string \<Rightarrow> nat \<Rightarrow> (string, string) dict \<Rightarrow> py_error + (string, string) dict" where
  "parse_groups raw pos0 ans =
     (case str_find raw CHR ''['' pos0 of
        None \<Rightarrow> Inr ans
      | Some pos \<Rightarrow>
          (case scan_group raw 1 pos of
             Inl e \<Rightarrow> Inl e
           | Inr epos \<Rightarrow>
               parse_groups raw epos (store_group (take (epos - (pos + 1)) (drop (pos + 1) raw)) ans)))"
  by pat_completeness auto
termination
proof (relation "measure (\<lambda>(raw, pos0, ans). length raw - pos0)")
  fix raw :: string and pos0 pos epos :: nat and ans :: "(string, string) dict"
  assume f: "str_find raw CHR ''['' pos0 = Some pos" and g: "scan_group raw 1 pos = Inr epos"
  from str_find_bounds [OF f] scan_group_bounds [OF g]
  show "((raw, epos, store_group (take (epos - (pos + 1)) (drop (pos + 1) raw)) ans), raw, pos0, ans)
      \<in> measure (\<lambda>(raw, pos0, ans). length raw - pos0)"
    by auto
qed simp

declare parse_groups.simps [simp del]

definition ssh_options :: "environment \<Rightarrow> py_error + (string, string) dict" where
  "ssh_options env =
     (case ssh_stderr env of
        Inl e \<Rightarrow> Inl e
      | Inr raw \<Rightarrow> parse_groups raw 0 [])"

section \<open>Option descriptions\<close>

text \<open>\<open>s.split(maxsplit=n)\<close>: after \<open>n\<close> fields, what is left (less its leading white
  space) is the last field.\<close>

function split_ws_max :: "nat \<Rightarrow> string \<Rightarrow> string list" where
  "split_ws_max n s =
     (let s' = dropWhile is_space s
      in if s' = [] then []
         else if n = 0 then [s']
         else takeWhile (\<lambda>c. \<not> is_space c) s' #
              split_ws_max (n - 1) (dropWhile (\<lambda>c. \<not> is_space c) s'))"
  by pat_completeness auto
termination
proof (relation "measure (\<lambda>(n, s). length s)")
  fix n :: nat and s s' :: string
  assume "s' = dropWhile is_space s" and "s' \<noteq> []"
  then have "length (dropWhile (\<lambda>c. \<not> is_space c) s') < length s"
    using next_field_shorter [of s] by simp
  then show "((n - 1, dropWhile (\<lambda>c. \<not> is_space c) s'), n, s) \<in> measure (\<lambda>(n, s). length s)"
    by simp
qed simp

declare split_ws_max.simps [simp del]

text \<open>The lines of the help text of \<open>option_help_map\<close>, as \<open>splitlines()\<close> returns them.\<close>

definition option_help_lines :: "string list" where
  "option_help_lines =
     ['''',
      ''-4  -- force ssh to use IPv4 addresses only'',
      ''-6  -- force ssh to use IPv6 addresses only'',
      ''-a  -- disable forwarding of authentication agent connection'',
      ''-A  -- enable forwarding of the authentication agent connection'',
      ''-B  -- bind to specified interface before attempting to connect'',
      ''-b  -- specify interface to transmit on'',
      ''-C  -- compress data'',
      ''-c  -- select encryption cipher'',
      ''-D  -- specify a dynamic port forwarding'',
      ''-E  -- append log output to file instead of stderr'',
      ''-e  -- set escape character'',
      ''-f  -- go to background'',
      ''-F  -- specify alternate config file'',
      ''-g  -- allow remote hosts to connect to local forwarded ports'',
      ''-G  -- output configuration and exit'',
      ''-i  -- select identity file'',
      ''-I  -- specify smartcard device'',
      ''-J  -- connect via a jump host'',
      ''-k  -- disable forwarding of GSSAPI credentials'',
      ''-K  -- enable GSSAPI-based authentication and forwarding'',
      ''-L  -- specify local port forwarding'',
      ''-l  -- specify login name'',
      ''-M  -- master mode for connection sharing'',
      ''-m  -- specify mac algorithms'',
      ''-N  -- don'' @ [CHR 0x27] @ ''t execute a remote command'',
      ''-n  -- redirect stdin from /dev/null'',
      ''-O  -- control an active connection multiplexing master process'',
      ''-o  -- specify extra options'',
      ''-p  -- specify port on remote host'',
      ''-P  -- use non privileged port'',
      ''-Q  -- query parameters'',
      ''-q  -- quiet operation'',
      ''-R  -- specify remote port forwarding'',
      ''-s  -- invoke subsystem'',
      ''-S  -- specify location of control socket for connection sharing'',
      ''-T  -- disable pseudo-tty allocation'',
      ''-t  -- force pseudo-tty allocation'',
      ''-V  -- show version number'',
      ''-v  -- verbose mode (multiple increase verbosity, up to 3)'',
      ''-W  -- forward standard input and output to host'',
      ''-w  -- request tunnel device forwarding'',
      ''-x  -- disable X11 forwarding'',
      ''-X  -- enable (untrusted) X11 forwarding'',
      ''-Y  -- enable trusted X11 forwarding'',
      ''-y  -- send log info via syslog instead of stderr'']"

text \<open>The loop of \<open>option_help_map\<close>; \<open>parts[2]\<close> raises \<open>IndexError\<close> on a line of fewer than
  three fields.\<close>

fun help_map_loop :: "string list \<Rightarrow> (string, string) dict \<Rightarrow> py_error + (string, string) dict" where
  "help_map_loop [] ans = Inr ans"
| "help_map_loop (line0 # lines) ans =
     (let line = strip line0
      in if line \<noteq> [] then
           (let parts = split_ws_max 2 line
            in if length parts > 2 then help_map_loop lines (AList.update (parts ! 0) (parts ! 2) ans)
               else Inl IndexError)
         else help_map_loop lines ans)"

definition option_help_map :: "py_error + (string, string) dict" where
  "option_help_map = help_map_loop option_help_lines []"

section \<open>Completion dispatcher\<close>

text \<open>The result collector: only its \<open>match_groups\<close> are written here.\<close>

record completions =
  match_groups :: "(string, (string, string) dict) dict"

definition complete_arg ::
    "'a completions_scheme \<Rightarrow> string \<Rightarrow> string \<Rightarrow> py_error + 'a completions_scheme" where
  "complete_arg ans option_flag prefix = Inr ans"

definition complete_destination ::
    "environment \<Rightarrow> 'a completions_scheme \<Rightarrow> string \<Rightarrow> py_error + 'a completions_scheme" where
  "complete_destination env ans prefix =
     (case known_hosts env of
        Inl e \<Rightarrow> Inl e
      | Inr hosts \<Rightarrow>
          (let result = dict_of (map (\<lambda>k. (k, '''')) (filter (\<lambda>k. startswith k prefix) hosts))
           in Inr (ans\<lparr>match_groups := AList.update ''remote host name'' result (match_groups ans)\<rparr>)))"

definition complete_option ::
    "'a completions_scheme \<Rightarrow> string \<Rightarrow> py_error + 'a completions_scheme" where
  "complete_option ans prefix =
     (case option_help_map of
        Inl e \<Rightarrow> Inl e
      | Inr hm \<Rightarrow>
          (if length prefix \<le> 1 then
             (let result = dict_of (filter (\<lambda>(k, v). startswith k prefix) hm)
              in Inr (ans\<lparr>match_groups := AList.update ''option'' result (match_groups ans)\<rparr>))
           else Inr (ans\<lparr>match_groups := AList.update ''option'' [(prefix, '''')] (match_groups ans)\<rparr>)))"

text \<open>A value of \<open>options.get(...)\<close> taken as a condition: \<open>None\<close> and the empty string are
  false.\<close>

definition truthy :: "string option \<Rightarrow> bool" where
  "truthy v = (case v of None \<Rightarrow> False | Some d \<Rightarrow> d \<noteq> [])"

text \<open>The classification loop of \<open>complete\<close> over \<open>enumerate(words)\<close>; it returns \<open>types\<close>
  and \<open>expecting_arg\<close> as the loop leaves them.\<close>

fun classify ::
    "(string, string) dict \<Rightarrow> (nat \<times> string) list \<Rightarrow> bool \<Rightarrow> string list \<Rightarrow> string list \<times> bool" where
  "classify options [] expecting_arg types = (types, expecting_arg)"
| "classify options ((i, word) # rest) expecting_arg types =
     (if expecting_arg then classify options rest False (types[i := ''arg''])
      else if startswith word ''-'' then
        classify options rest
          (if length word = 2 \<and> truthy (dict_get options [word ! 1]) then True else expecting_arg)
          (types[i := ''option''])
      else (types[i := ''destination''], expecting_arg))"

definition complete ::
    "environment \<Rightarrow> 'a completions_scheme \<Rightarrow> string list \<Rightarrow> bool \<Rightarrow> py_error + 'a completions_scheme" where
  "complete env ans words new_word =
     (case ssh_options env of
        Inl e \<Rightarrow> Inl e
      | Inr options \<Rightarrow>
          (case classify options (enumerate 0 words) False (replicate (length words) '''') of
             (types, expecting_arg) \<Rightarrow>
               if new_word then
                 (if words \<noteq> [] \<and> expecting_arg then complete_arg ans (last words) ''''
                  else complete_destination env ans '''')
               else if words \<noteq> [] then
                 (if last types = ''arg'' \<and> length words > 1
                    then complete_arg ans (words ! (length words - 2)) (last words)
                  else if last types = ''destination'' then complete_destination env ans (last words)
                  else if last types = ''option'' then complete_option ans (last words)
                  else Inr ans)
               else Inr ans))"

section \<open>An example environment\<close>

text \<open>
  A machine with a user \<open>ssh\<close> configuration and a \<open>known_hosts\<close> file, no system-wide
  files, no \<open>getent\<close>, and an \<open>ssh\<close> whose usage banner names the port option.
\<close>

definition example_env :: environment where
  "example_env =
     \<lparr>files = (\<lambda>p.
         if p = ''~/.ssh/config'' then Readable [''Host hostb'', ''Host *.example.com'', ''  User me''] None
         else if p = ''~/.ssh/known_hosts'' then
           Readable [''hosta:2222 ssh-rsa AAAA'', ''[hostc]:22 ssh-rsa BBBB'', ''hostb ssh-rsa CC'',
                     ''other ssh-rsa DD''] None
         else Unreadable),
       commands = (\<lambda>c. Inl OSError),
       ssh_stderr = Inr ''usage: ssh [-46AaC] [-p port]''\<rparr>"

section \<open>The wording of the specification\<close>

text \<open>
  The wording of the specification for the known-hosts filter: the field \<open>f\<close> ends with
  a port suffix, a colon followed by one or more digits, and \<open>h\<close> is what stands before
  that suffix.
\<close>

definition has_port_suffix :: "string \<Rightarrow> string \<Rightarrow> bool" where
  "has_port_suffix f h = (\<exists>ds. f = h @ CHR '':'' # ds \<and> ds \<noteq> [] \<and> list_all is_digit ds)"

section \<open>Fields and trimming\<close>

lemma is_space_newline: "is_space (CHR 0x0A)"
  by (simp add: is_space_def)

lemma split_ws_Nil: "dropWhile is_space s = [] \<Longrightarrow> split_ws s = []"
  by (subst split_ws.simps) simp

lemma split_ws_Cons:
  "dropWhile is_space s \<noteq> [] \<Longrightarrow>
   split_ws s = takeWhile (\<lambda>c. \<not> is_space c) (dropWhile is_space s) #
                split_ws (dropWhile (\<lambda>c. \<not> is_space c) (dropWhile is_space s))"
  by (subst split_ws.simps) (simp add: Let_def)

lemma split_ws_empty_iff: "split_ws s = [] \<longleftrightarrow> (\<forall>c\<in>set s. is_space c)"
proof (cases "dropWhile is_space s = []")
  case True
  then show ?thesis by (simp add: split_ws_Nil)
next
  case False
  then show ?thesis by (simp add: split_ws_Cons)
qed

lemma split_ws_fields:
  "f \<in> set (split_ws s) \<Longrightarrow> f \<noteq> [] \<and> (\<forall>c\<in>set f. \<not> is_space c)"
proof (induction s rule: split_ws.induct)
  case (1 s)
  let ?s' = "dropWhile is_space s"
  show ?case
  proof (cases "?s' = []")
    case True
    with "1.prems" show ?thesis by (simp add: split_ws_Nil)
  next
    case False
    then have hd: "\<not> is_space (hd ?s')" by (rule hd_dropWhile)
    from "1.prems" False
    consider "f = takeWhile (\<lambda>c. \<not> is_space c) ?s'"
      | "f \<in> set (split_ws (dropWhile (\<lambda>c. \<not> is_space c) ?s'))"
      by (auto simp: split_ws_Cons)
    then show ?thesis
    proof cases
      case 1
      have "f \<noteq> []"
        using False hd unfolding 1 by (cases ?s') auto
      moreover have "\<forall>c\<in>set f. \<not> is_space c"
        unfolding 1 by (auto dest: set_takeWhileD)
      ultimately show ?thesis by simp
    next
      case 2
      with "1.IH" [OF refl False] show ?thesis by simp
    qed
  qed
qed

lemma takeWhile_none: "\<forall>y\<in>set ys. \<not> P y \<Longrightarrow> takeWhile P ys = []"
  by (cases ys) auto

lemma dropWhile_none: "\<forall>y\<in>set ys. \<not> P y \<Longrightarrow> dropWhile P ys = ys"
  by (cases ys) auto

lemma takeWhile_append_none:
  "\<forall>y\<in>set ys. \<not> P y \<Longrightarrow> takeWhile P (xs @ ys) = takeWhile P xs"
  by (induction xs) (simp_all add: takeWhile_none)

lemma dropWhile_append_none:
  "\<forall>y\<in>set ys. \<not> P y \<Longrightarrow> dropWhile P (xs @ ys) = dropWhile P xs @ ys"
  by (induction xs) (simp_all add: dropWhile_none)

lemma split_ws_append_space:
  "\<forall>c\<in>set w. is_space c \<Longrightarrow> split_ws (s @ w) = split_ws s"
proof (induction s rule: split_ws.induct)
  case (1 s)
  let ?t = "dropWhile is_space s"
  show ?case
  proof (cases "?t = []")
    case True
    then have "\<forall>c\<in>set (s @ w). is_space c"
      using "1.prems" by auto
    then have "split_ws (s @ w) = []"
      by (simp only: split_ws_empty_iff)
    with True show ?thesis by (simp add: split_ws_Nil)
  next
    case False
    then have ex: "\<exists>x\<in>set s. \<not> is_space x"
      by auto
    then have d: "dropWhile is_space (s @ w) = ?t @ w"
      by auto
    have w: "\<forall>y\<in>set w. \<not> (\<lambda>c. \<not> is_space c) y"
      using "1.prems" by simp
    have "split_ws (s @ w) =
        takeWhile (\<lambda>c. \<not> is_space c) (?t @ w) # split_ws (dropWhile (\<lambda>c. \<not> is_space c) (?t @ w))"
      using False d by (simp add: split_ws_Cons)
    also have "\<dots> = takeWhile (\<lambda>c. \<not> is_space c) ?t # split_ws (dropWhile (\<lambda>c. \<not> is_space c) ?t @ w)"
      by (simp only: takeWhile_append_none [OF w] dropWhile_append_none [OF w])
    also have "\<dots> = takeWhile (\<lambda>c. \<not> is_space c) ?t # split_ws (dropWhile (\<lambda>c. \<not> is_space c) ?t)"
      using "1.IH" [OF refl False "1.prems"] by simp
    also have "\<dots> = split_ws s"
      using False by (simp add: split_ws_Cons)
    finally show ?thesis .
  qed
qed

lemma split_ws_dropWhile: "split_ws (dropWhile is_space s) = split_ws s"
proof (cases "dropWhile is_space s = []")
  case True
  then show ?thesis by (simp add: split_ws_Nil)
next
  case False
  have idem: "dropWhile is_space (dropWhile is_space s) = dropWhile is_space s"
    using False hd_dropWhile [OF False] by (cases "dropWhile is_space s") auto
  show ?thesis
    using False by (simp add: split_ws_Cons [of s] split_ws_Cons [of "dropWhile is_space s"] idem)
qed

lemma strip_decomp:
  "dropWhile is_space s = strip s @ rev (takeWhile is_space (rev (dropWhile is_space s)))"
proof -
  let ?t = "dropWhile is_space s"
  have "rev (dropWhile is_space (rev ?t)) @ rev (takeWhile is_space (rev ?t)) = rev (rev ?t)"
    by (simp only: rev_append [symmetric] takeWhile_dropWhile_id)
  then show ?thesis
    by (simp add: strip_def)
qed

lemma split_ws_strip: "split_ws (strip s) = split_ws s"
proof -
  let ?w = "rev (takeWhile is_space (rev (dropWhile is_space s)))"
  have "\<forall>c\<in>set ?w. is_space c"
    by (auto dest: set_takeWhileD)
  then have "split_ws (strip s @ ?w) = split_ws (strip s)"
    by (rule split_ws_append_space)
  then show ?thesis
    using strip_decomp [of s] split_ws_dropWhile [of s] by simp
qed

lemma strip_empty_iff: "strip s = [] \<longleftrightarrow> (\<forall>c\<in>set s. is_space c)"
proof (cases "dropWhile is_space s = []")
  case True
  then show ?thesis by (auto simp: strip_def dest: set_dropWhileD)
next
  case False
  then have "\<not> is_space (hd (dropWhile is_space s))" by (rule hd_dropWhile)
  moreover have "hd (dropWhile is_space s) \<in> set (dropWhile is_space s)"
    using False by simp
  ultimately have "strip s \<noteq> []"
    by (auto simp: strip_def)
  with False show ?thesis by auto
qed

lemma strip_empty_split: "strip s = [] \<longleftrightarrow> split_ws s = []"
  by (simp add: strip_empty_iff split_ws_empty_iff)

section \<open>The line filters\<close>

lemma in_set_dropWhile: "x \<in> set xs \<Longrightarrow> \<not> P x \<Longrightarrow> x \<in> set (dropWhile P xs)"
  by (induction xs) auto

lemma mem_not_singleton: "x \<in> set ys \<Longrightarrow> x \<noteq> y \<Longrightarrow> ys \<noteq> [] \<and> ys \<noteq> [y]"
  by auto

lemma colon_not_digit: "\<not> is_digit (CHR '':'')"
  by (simp add: is_digit_def)

lemma re_sub_port_suffix:
  assumes "ds \<noteq> []" and "list_all is_digit ds"
  shows "re_sub_port (h @ CHR '':'' # ds) = h"
proof (induction h)
  case Nil
  from assms have tw: "takeWhile is_digit ds = ds" and dw: "dropWhile is_digit ds = []"
    by (simp_all add: list_all_iff)
  show ?case
    unfolding append_Nil re_sub_port.simps tw dw using assms(1) by simp
next
  case (Cons c h)
  have "CHR '':'' \<in> set (dropWhile is_digit (h @ CHR '':'' # ds))"
    by (rule in_set_dropWhile) (simp_all add: colon_not_digit)
  then have "dropWhile is_digit (h @ CHR '':'' # ds) \<noteq> [] \<and>
      dropWhile is_digit (h @ CHR '':'' # ds) \<noteq> [CHR 0x0A]"
    by (rule mem_not_singleton) simp
  then have "re_sub_port ((c # h) @ CHR '':'' # ds) = c # re_sub_port (h @ CHR '':'' # ds)"
    by (simp only: append_Cons re_sub_port.simps) simp
  with Cons show ?case by simp
qed

lemma re_sub_port_no_suffix:
  assumes "CHR 0x0A \<notin> set f" and "\<nexists>h. has_port_suffix f h"
  shows "re_sub_port f = f"
  using assms
proof (induction f)
  case Nil
  show ?case by simp
next
  case (Cons c cs)
  have no: "\<nexists>h. has_port_suffix cs h"
  proof
    assume "\<exists>h. has_port_suffix cs h"
    then obtain h where "has_port_suffix cs h" ..
    then have "has_port_suffix (c # cs) (c # h)"
      by (auto simp: has_port_suffix_def)
    with Cons.prems(2) show False by blast
  qed
  have neg: "\<not> (c = CHR '':'' \<and> takeWhile is_digit cs \<noteq> [] \<and>
      (dropWhile is_digit cs = [] \<or> dropWhile is_digit cs = [CHR 0x0A]))"
  proof
    assume a: "c = CHR '':'' \<and> takeWhile is_digit cs \<noteq> [] \<and>
      (dropWhile is_digit cs = [] \<or> dropWhile is_digit cs = [CHR 0x0A])"
    have "dropWhile is_digit cs \<noteq> [CHR 0x0A]"
      using Cons.prems(1) set_dropWhileD [of "CHR 0x0A" is_digit cs] by auto
    with a have d: "dropWhile is_digit cs = []" and ne: "cs \<noteq> []"
      by auto
    then have "list_all is_digit cs"
      by (simp add: list_all_iff)
    with a ne have "has_port_suffix (c # cs) []"
      by (simp add: has_port_suffix_def)
    with Cons.prems(2) show False by blast
  qed
  have rs: "re_sub_port cs = cs"
    using Cons.IH Cons.prems(1) no by simp
  show ?case
    by (simp only: re_sub_port.simps neg if_False rs)
qed

lemma has_port_suffix_unique: "has_port_suffix f h \<Longrightarrow> has_port_suffix f h' \<Longrightarrow> h = h'"
  using re_sub_port_suffix by (metis has_port_suffix_def)

text \<open>
  Claim C8. When the white-space-split field list of the line is not empty,
  \<open>hosts_from_known_hosts\<close> yields exactly one token: the first field without its trailing
  colon-and-digits suffix when it has one, and the first field unchanged otherwise.
  For a line of white space only there are no fields and nothing is yielded.
\<close>

theorem hosts_from_known_hosts_token:
  "(split_ws line \<noteq> [] \<longrightarrow>
      (\<exists>tok. hosts_from_known_hosts line = [tok] \<and>
         (\<forall>h. has_port_suffix (hd (split_ws line)) h \<longrightarrow> tok = h) \<and>
         ((\<nexists>h. has_port_suffix (hd (split_ws line)) h) \<longrightarrow> tok = hd (split_ws line)))) \<and>
   ((\<forall>c\<in>set line. is_space c) \<longrightarrow> split_ws line = [] \<and> hosts_from_known_hosts line = [])"
proof (intro conjI impI)
  assume ne: "split_ws line \<noteq> []"
  let ?f = "hd (split_ws line)"
  have hk: "hosts_from_known_hosts line = [re_sub_port ?f]"
    using ne by (simp add: hosts_from_known_hosts_def split_ws_strip hd_conv_nth)
  have "?f \<in> set (split_ws line)"
    using ne by simp
  then have "\<forall>c\<in>set ?f. \<not> is_space c"
    using split_ws_fields by blast
  then have nl: "CHR 0x0A \<notin> set ?f"
    using is_space_newline by blast
  have "\<forall>h. has_port_suffix ?f h \<longrightarrow> re_sub_port ?f = h"
    using re_sub_port_suffix by (auto simp: has_port_suffix_def)
  moreover have "(\<nexists>h. has_port_suffix ?f h) \<longrightarrow> re_sub_port ?f = ?f"
    using re_sub_port_no_suffix [OF nl] by blast
  ultimately show "\<exists>tok. hosts_from_known_hosts line = [tok] \<and>
         (\<forall>h. has_port_suffix ?f h \<longrightarrow> tok = h) \<and>
         ((\<nexists>h. has_port_suffix ?f h) \<longrightarrow> tok = ?f)"
    using hk by blast
next
  assume "\<forall>c\<in>set line. is_space c"
  then show "split_ws line = []"
    by (simp only: split_ws_empty_iff)
  then show "hosts_from_known_hosts line = []"
    by (simp add: hosts_from_known_hosts_def split_ws_strip)
qed

lemma known_hosts_line_fields: "split_ws ''example.com:2222 ssh-rsa AAAA'' = [''example.com:2222'', ''ssh-rsa'', ''AAAA'']"
  by code_simp

lemma blank_line_spaces: "list_all is_space ''   ''"
  by code_simp

theorem hosts_from_known_hosts_token_witness:
  "split_ws ''example.com:2222 ssh-rsa AAAA'' \<noteq> [] \<and>
   has_port_suffix (hd (split_ws ''example.com:2222 ssh-rsa AAAA'')) ''example.com'' \<and>
   hosts_from_known_hosts ''example.com:2222 ssh-rsa AAAA'' = [''example.com''] \<and>
   list_all is_space ''   '' \<and> hosts_from_known_hosts ''   '' = []"
proof -
  let ?l = "''example.com:2222 ssh-rsa AAAA''"
  have ne: "split_ws ?l \<noteq> []"
    by (simp add: known_hosts_line_fields)
  have sfx: "has_port_suffix (hd (split_ws ?l)) ''example.com''"
    unfolding has_port_suffix_def known_hosts_line_fields
    by (rule exI [of _ "''2222''"]) (simp add: is_digit_def)
  from ne hosts_from_known_hosts_token [of ?l]
  obtain tok where "hosts_from_known_hosts ?l = [tok]"
    and "\<forall>h. has_port_suffix (hd (split_ws ?l)) h \<longrightarrow> tok = h"
    by blast
  with sfx have "hosts_from_known_hosts ?l = [''example.com'']"
    by blast
  moreover have "hosts_from_known_hosts ''   '' = []"
    using hosts_from_known_hosts_token [of "''   ''"] blank_line_spaces by (simp add: list_all_iff)
  ultimately show ?thesis
    using ne sfx blank_line_spaces by blast
qed

text \<open>
  Claim C9. \<open>hosts_from_hosts\<close> yields nothing when the trimmed line starts with \<open>#\<close> or
  is empty; otherwise the trimmed line has a first field and the tokens are its first
  three fields at most, in order. There are never more than three tokens.
\<close>

theorem hosts_from_hosts_tokens:
  "(startswith (strip line) ''#'' \<or> strip line = [] \<longrightarrow> hosts_from_hosts line = []) \<and>
   (\<not> startswith (strip line) ''#'' \<and> strip line \<noteq> [] \<longrightarrow>
      split_ws (strip line) \<noteq> [] \<and> hosts_from_hosts line = take 3 (split_ws (strip line))) \<and>
   length (hosts_from_hosts line) \<le> 3"
proof -
  let ?parts = "split_ws (strip line)"
  have tk: "(if ?parts \<noteq> [] then [?parts ! 0] else []) @
        (if length ?parts > 1 then [?parts ! 1] else []) @
        (if length ?parts > 2 then [?parts ! 2] else []) = take 3 ?parts"
    by (cases ?parts rule: list.exhaust; cases "tl ?parts"; cases "tl (tl ?parts)") auto
  have e: "strip line = [] \<longleftrightarrow> ?parts = []"
    by (simp add: strip_empty_split split_ws_strip)
  show ?thesis
    using tk e by (auto simp: hosts_from_hosts_def Let_def)
qed

theorem hosts_from_hosts_tokens_witness:
  "\<not> startswith (strip ''1.2.3.4 foo bar baz'') ''#'' \<and> strip ''1.2.3.4 foo bar baz'' \<noteq> [] \<and>
   hosts_from_hosts ''1.2.3.4 foo bar baz'' = [''1.2.3.4'', ''foo'', ''bar''] \<and>
   startswith (strip ''  # 1.2.3.4 foo'') ''#'' \<and> hosts_from_hosts ''  # 1.2.3.4 foo'' = []"
proof -
  have a: "\<not> startswith (strip ''1.2.3.4 foo bar baz'') ''#''"
    by code_simp
  have b: "strip ''1.2.3.4 foo bar baz'' \<noteq> []"
    by code_simp
  have c: "take 3 (split_ws (strip ''1.2.3.4 foo bar baz'')) = [''1.2.3.4'', ''foo'', ''bar'']"
    by code_simp
  have d: "startswith (strip ''  # 1.2.3.4 foo'') ''#''"
    by code_simp
  from a b c hosts_from_hosts_tokens [of "''1.2.3.4 foo bar baz''"]
  have "hosts_from_hosts ''1.2.3.4 foo bar baz'' = [''1.2.3.4'', ''foo'', ''bar'']"
    by simp
  moreover from d hosts_from_hosts_tokens [of "''  # 1.2.3.4 foo''"]
  have "hosts_from_hosts ''  # 1.2.3.4 foo'' = []"
    by blast
  ultimately show ?thesis
    using a b d by blast
qed

section \<open>Dictionaries and the option table\<close>

lemma update_fresh: "k \<notin> fst ` set al \<Longrightarrow> AList.update k v al = al @ [(k, v)]"
  by (induction al) auto

lemma fold_update_distinct:
  "distinct (map fst ps) \<Longrightarrow> fst ` set ps \<inter> fst ` set acc = {} \<Longrightarrow>
   fold (\<lambda>(k, v) acc. AList.update k v acc) ps acc = acc @ ps"
proof (induction ps arbitrary: acc)
  case Nil
  show ?case by simp
next
  case (Cons p ps)
  obtain k v where p: "p = (k, v)" by (cases p)
  from Cons.prems p have fresh: "k \<notin> fst ` set acc"
    by auto
  have "fst ` set ps \<inter> fst ` set (acc @ [(k, v)]) = {}"
    using Cons.prems p by auto
  with Cons.IH [of "acc @ [(k, v)]"] Cons.prems(1)
  have "fold (\<lambda>(k, v) acc. AList.update k v acc) ps (acc @ [(k, v)]) = (acc @ [(k, v)]) @ ps"
    by simp
  then show ?case
    using p fresh by (simp add: update_fresh)
qed

lemma dict_of_distinct: "distinct (map fst ps) \<Longrightarrow> dict_of ps = ps"
  using fold_update_distinct [of ps "[]"] by (simp add: dict_of_def)

lemma fold_update_const:
  "\<forall>p\<in>set other. snd p = v \<Longrightarrow>
   map_of (fold (\<lambda>(k, v) acc. AList.update k v acc) other d) k =
     (if k \<in> fst ` set other then Some v else map_of d k)"
proof (induction other arbitrary: d)
  case Nil
  show ?case by simp
next
  case (Cons p other)
  obtain k' where p: "p = (k', v)"
    using Cons.prems by (cases p) auto
  from Cons.prems have "\<forall>p\<in>set other. snd p = v"
    by simp
  from Cons.IH [OF this, of "AList.update k' v d"] p show ?case
    by (auto simp: update_conv')
qed

lemma fromkeys_set:
  "set (fold (\<lambda>k acc. AList.update k v acc) ks d) \<subseteq> set d \<union> (\<lambda>k. (k, v)) ` set ks"
proof (induction ks arbitrary: d)
  case Nil
  show ?case by simp
next
  case (Cons a ks)
  have "set (AList.update a v d) \<subseteq> insert (a, v) (set d)"
    by (induction d) auto
  with Cons.IH [of "AList.update a v d"] show ?case
    by auto
qed

lemma fromkeys_dom:
  "fst ` set (fold (\<lambda>k acc. AList.update k v acc) ks d) = fst ` set d \<union> set ks"
  by (induction ks arbitrary: d) (auto simp: dom_update)

lemma dict_get_update_fromkeys:
  "dict_get (dict_update ans (dict_fromkeys ks v)) k =
     (if k \<in> set ks then Some v else dict_get ans k)"
proof -
  have "\<forall>p\<in>set (dict_fromkeys ks v). snd p = v"
    using fromkeys_set [of v ks "[]"] by (auto simp: dict_fromkeys_def)
  moreover have "fst ` set (dict_fromkeys ks v) = set ks"
    using fromkeys_dom [of v ks "[]"] by (simp add: dict_fromkeys_def)
  ultimately show ?thesis
    using fold_update_const [of "dict_fromkeys ks v" v ans k]
    by (simp add: dict_get_def dict_update_def)
qed

text \<open>
  Claim C4, as amended. For a group \<open>q\<close> that is a flag cluster (at least two characters,
  a leading dash, no space), every character after the dash is stored with the empty
  string, whether or not the table already had an entry for it: an earlier entry for
  the same flag is replaced. The entries of all other keys are unchanged.
\<close>

theorem store_group_cluster_overwrites:
  assumes "2 \<le> length q" and "q ! 0 = CHR ''-''" and "CHR '' '' \<notin> set q"
  shows "dict_get (store_group q ans) k =
           (if k \<in> (\<lambda>c. [c]) ` set (drop 1 q) then Some [] else dict_get ans k)"
  using assms by (simp add: store_group_def dict_get_update_fromkeys)

theorem store_group_cluster_overwrites_witness:
  "2 \<le> length ''-vC'' \<and> ''-vC'' ! 0 = CHR ''-'' \<and> CHR '' '' \<notin> set ''-vC'' \<and>
   dict_get [(''C'', ''x'')] ''C'' = Some ''x'' \<and>
   dict_get (store_group ''-vC'' [(''C'', ''x'')]) ''C'' = Some [] \<and>
   dict_get (store_group ''-vC'' [(''C'', ''x''), (''b'', ''y'')]) ''b'' = Some ''y''"
  using store_group_cluster_overwrites [of "''-vC''" "[(''C'', ''x'')]" "''C''"]
    store_group_cluster_overwrites [of "''-vC''" "[(''C'', ''x''), (''b'', ''y'')]" "''b''"]
  by (simp add: dict_get_def)

text \<open>
  The claim as it was stated fails: after the group \<open>-C x\<close> has stored \<open>x\<close> for \<open>C\<close>, the
  cluster \<open>-vC\<close> replaces it by the empty string.
\<close>

theorem cluster_keeps_earlier_entry_counterexample:
  "ssh_options \<lparr>files = (\<lambda>p. Unreadable), commands = (\<lambda>c. Inl OSError),
                ssh_stderr = Inr ''usage: ssh [-C x]''\<rparr> = Inr [(''C'', ''x'')] \<and>
   ssh_options \<lparr>files = (\<lambda>p. Unreadable), commands = (\<lambda>c. Inl OSError),
                ssh_stderr = Inr ''usage: ssh [-C x] [-vC]''\<rparr> = Inr [(''C'', []), (''v'', [])]"
  by code_simp

section \<open>Properties of the host aggregation\<close>

lemma example_iter:
  "iter_known_hosts example_env =
     Inr [''hostb'', ''*.example.com'', ''hosta'', ''[hostc]'', ''hostb'', ''other'']"
  by code_simp

text \<open>
  Claim C5. Whatever tokens the five host sources yield, \<open>known_hosts\<close> returns a sequence
  without duplicates, sorted ascending in the lexicographic order of strings, none of
  whose members contains \<open>*\<close> or \<open>[\<close>; its members are yielded tokens, and every yielded
  token without \<open>*\<close> and \<open>[\<close> is among them.
\<close>

theorem known_hosts_sorted_distinct:
  assumes "iter_known_hosts env = Inr toks"
  shows "\<exists>hosts. known_hosts env = Inr hosts \<and> distinct hosts \<and> sorted hosts \<and>
           (\<forall>h\<in>set hosts. CHR ''*'' \<notin> set h \<and> CHR ''['' \<notin> set h \<and> h \<in> set toks) \<and>
           (\<forall>t\<in>set toks. CHR ''*'' \<notin> set t \<and> CHR ''['' \<notin> set t \<longrightarrow> t \<in> set hosts)"
proof -
  let ?ok = "\<lambda>x. CHR ''*'' \<notin> set x \<and> CHR ''['' \<notin> set x"
  let ?hosts = "sort (filter ?ok (remdups toks))"
  have "known_hosts env = Inr ?hosts"
    using assms by (simp add: known_hosts_def)
  moreover have "distinct ?hosts"
    by simp
  moreover have "sorted ?hosts"
    by (rule sorted_sort)
  moreover have "set ?hosts = {t \<in> set toks. ?ok t}"
    by auto
  ultimately show ?thesis
    by blast
qed


theorem known_hosts_sorted_distinct_witness:
  "iter_known_hosts example_env =
     Inr [''hostb'', ''*.example.com'', ''hosta'', ''[hostc]'', ''hostb'', ''other''] \<and>
   (\<exists>hosts. known_hosts example_env = Inr hosts \<and> distinct hosts \<and> sorted hosts \<and>
      ''hosta'' \<in> set hosts \<and> ''hostb'' \<in> set hosts \<and> ''other'' \<in> set hosts \<and>
      ''*.example.com'' \<notin> set hosts \<and> ''[hostc]'' \<notin> set hosts)"
proof -
  let ?toks = "[''hostb'', ''*.example.com'', ''hosta'', ''[hostc]'', ''hostb'', ''other'']"
  from known_hosts_sorted_distinct [OF example_iter]
  obtain hosts where k: "known_hosts example_env = Inr hosts"
    and d: "distinct hosts" and s: "sorted hosts"
    and sub: "\<forall>h\<in>set hosts. CHR ''*'' \<notin> set h \<and> CHR ''['' \<notin> set h \<and> h \<in> set ?toks"
    and sup: "\<forall>t\<in>set ?toks. CHR ''*'' \<notin> set t \<and> CHR ''['' \<notin> set t \<longrightarrow> t \<in> set hosts"
    by (elim exE conjE)
  have "''hosta'' \<in> set hosts" and "''hostb'' \<in> set hosts" and "''other'' \<in> set hosts"
    using sup by simp_all
  moreover have "''*.example.com'' \<notin> set hosts"
  proof
    assume "''*.example.com'' \<in> set hosts"
    with sub have "CHR ''*'' \<notin> set ''*.example.com''" by blast
    then show False by simp
  qed
  moreover have "''[hostc]'' \<notin> set hosts"
  proof
    assume "''[hostc]'' \<in> set hosts"
    with sub have "CHR ''['' \<notin> set ''[hostc]''" by blast
    then show False by simp
  qed
  ultimately show ?thesis
    using example_iter k d s by (intro conjI exI [of _ hosts])
qed

section \<open>The option table and the dispatcher\<close>

lemma usage_banner_groups:
  "parse_groups ''usage: ssh [-46AaC] [-b bind_address]'' 0 [] =
     Inr [(''4'', []), (''6'', []), (''A'', []), (''a'', []), (''C'', []), (''b'', ''bind_address'')]"
  by code_simp

text \<open>
  Claim C3. When the text read from the standard error of \<open>ssh\<close> is
  \<open>usage: ssh [-46AaC] [-b bind_address]\<close>, \<open>ssh_options\<close> returns exactly the table that
  maps \<open>4\<close>, \<open>6\<close>, \<open>A\<close>, \<open>a\<close> and \<open>C\<close> to the empty string and \<open>b\<close> to \<open>bind_address\<close>.
\<close>

theorem ssh_options_usage_banner:
  "ssh_options (env\<lparr>ssh_stderr := Inr ''usage: ssh [-46AaC] [-b bind_address]''\<rparr>) =
     Inr [(''4'', []), (''6'', []), (''A'', []), (''a'', []), (''C'', []), (''b'', ''bind_address'')]"
  by (simp add: ssh_options_def usage_banner_groups)

text \<open>
  Claim C1 does not hold of the code. When \<open>ssh\<close> cannot be started, \<open>subprocess.Popen\<close>
  raises \<open>OSError\<close> inside \<open>ssh_options\<close>, which has no handler, and \<open>complete\<close> calls
  \<open>ssh_options\<close> first: whatever the words and the collector are, the call to \<open>complete\<close>
  ends with that exception.
\<close>

theorem complete_raises_when_ssh_missing:
  "complete (env\<lparr>ssh_stderr := Inl OSError\<rparr>) ans words new_word = Inl OSError"
  by (simp add: complete_def ssh_options_def)

lemma unclosed_banner_groups: "parse_groups ''usage: ssh [-46AaC'' 0 [] = Inl IndexError"
  by code_simp

text \<open>
  Claim C2 does not hold of the code. On a banner with a bracket that is never closed,
  here \<open>usage: ssh [-46AaC\<close>, the inner loop of \<open>ssh_options\<close> reads \<open>raw[epos]\<close> at the
  length of the text and the call ends with \<open>IndexError\<close>.
\<close>

theorem ssh_options_unclosed_bracket_raises:
  "ssh_options (env\<lparr>ssh_stderr := Inr ''usage: ssh [-46AaC''\<rparr>) = Inl IndexError"
  by (simp add: ssh_options_def unclosed_banner_groups)

lemma option_help_map_evaluates: "case option_help_map of Inl e \<Rightarrow> False | Inr hm \<Rightarrow> True"
  by code_simp

lemma is_Inr: "(case x of Inl e \<Rightarrow> False | Inr y \<Rightarrow> True) \<Longrightarrow> \<exists>y. x = Inr y"
  by (cases x) simp_all

lemma option_help_map_ok: "\<exists>hm. option_help_map = Inr hm"
  using option_help_map_evaluates by (rule is_Inr)

text \<open>
  Claim C10. For a word that is a dash followed by exactly one character,
  \<open>complete_option\<close> writes into the group \<open>option\<close> the dictionary whose only entry is the
  typed word with the empty string; no entry of the description table is listed.
\<close>

theorem complete_option_single_flag:
  "complete_option ans [CHR ''-'', c] =
     Inr (ans\<lparr>match_groups := AList.update ''option'' [([CHR ''-'', c], [])] (match_groups ans)\<rparr>)"
proof -
  from option_help_map_ok obtain hm where hm: "option_help_map = Inr hm" ..
  show ?thesis
    unfolding complete_option_def hm by simp
qed

lemma classify_port_example:
  assumes "dict_get options ''p'' = Some d" and "d \<noteq> []"
  shows "classify options (enumerate 0 [''-p'', ''2222'', ''host'']) False (replicate 3 '''') =
           ([''option'', ''arg'', ''destination''], False)"
  using assms by (simp add: startswith_def truthy_def numeral_3_eq_3)

lemma known_hosts_distinct: "known_hosts env = Inr hosts \<Longrightarrow> distinct hosts"
  by (auto simp: known_hosts_def split: sum.splits)

lemma complete_destination_hosts:
  assumes "known_hosts env = Inr hosts"
  shows "complete_destination env ans prefix =
           Inr (ans\<lparr>match_groups :=
                  AList.update ''remote host name''
                    (map (\<lambda>k. (k, '''')) (filter (\<lambda>k. startswith k prefix) hosts))
                    (match_groups ans)\<rparr>)"
proof -
  let ?ps = "map (\<lambda>k. (k, ''''::string)) (filter (\<lambda>k. startswith k prefix) hosts)"
  have "distinct hosts"
    using assms by (rule known_hosts_distinct)
  then have "distinct (map fst ?ps)"
    by (simp add: comp_def)
  then have "dict_of ?ps = ?ps"
    by (rule dict_of_distinct)
  then show ?thesis
    by (simp add: complete_destination_def assms)
qed

lemma example_options:
  "ssh_options example_env =
     Inr [(''4'', []), (''6'', []), (''A'', []), (''a'', []), (''C'', []), (''p'', ''port'')]"
  by code_simp

lemma example_hosts: "known_hosts example_env = Inr [''hosta'', ''hostb'', ''other'']"
  by code_simp

text \<open>
  Claim C6. With an option table that gives \<open>p\<close> a non-empty value, the words
  \<open>-p\<close>, \<open>2222\<close>, \<open>host\<close> are classified as option, arg and destination, and
  \<open>complete\<close> with \<open>new_word\<close> false writes into the group \<open>remote host name\<close> exactly the
  known hosts that start with \<open>host\<close>, each with the empty description.
\<close>

theorem complete_port_then_destination:
  assumes "ssh_options env = Inr options" and "dict_get options ''p'' = Some d" and "d \<noteq> []"
    and "known_hosts env = Inr hosts"
  shows "classify options (enumerate 0 [''-p'', ''2222'', ''host'']) False (replicate 3 '''') =
           ([''option'', ''arg'', ''destination''], False) \<and>
         complete env ans [''-p'', ''2222'', ''host''] False =
           Inr (ans\<lparr>match_groups :=
                  AList.update ''remote host name''
                    (map (\<lambda>k. (k, '''')) (filter (\<lambda>k. startswith k ''host'') hosts))
                    (match_groups ans)\<rparr>)"
proof -
  have c: "classify options (enumerate 0 [''-p'', ''2222'', ''host'']) False (replicate 3 '''') =
           ([''option'', ''arg'', ''destination''], False)"
    using assms(2,3) by (rule classify_port_example)
  have "complete env ans [''-p'', ''2222'', ''host''] False =
      complete_destination env ans ''host''"
    using assms(1) c by (simp add: complete_def numeral_3_eq_3)
  then show ?thesis
    using c complete_destination_hosts [OF assms(4)] by simp
qed

theorem complete_port_then_destination_witness:
  "ssh_options example_env =
     Inr [(''4'', []), (''6'', []), (''A'', []), (''a'', []), (''C'', []), (''p'', ''port'')] \<and>
   dict_get [(''4'', []), (''6'', []), (''A'', []), (''a'', []), (''C'', []), (''p'', ''port'')] ''p'' =
     Some ''port'' \<and>
   known_hosts example_env = Inr [''hosta'', ''hostb'', ''other''] \<and>
   complete example_env \<lparr>match_groups = []\<rparr> [''-p'', ''2222'', ''host''] False =
     Inr \<lparr>match_groups = [(''remote host name'', [(''hosta'', []), (''hostb'', [])])]\<rparr>"
proof -
  have p: "dict_get [(''4'', []), (''6'', []), (''A'', []), (''a'', []), (''C'', []), (''p'', ''port'')] ''p'' =
      Some ''port''"
    by (simp add: dict_get_def)
  have ne: "''port'' \<noteq> []"
    by simp
  from complete_port_then_destination [OF example_options p ne example_hosts, of "\<lparr>match_groups = []\<rparr>"]
  have "complete example_env \<lparr>match_groups = []\<rparr> [''-p'', ''2222'', ''host''] False =
     Inr \<lparr>match_groups = [(''remote host name'', [(''hosta'', []), (''hostb'', [])])]\<rparr>"
    by (simp add: startswith_def)
  with example_options p example_hosts show ?thesis
    by (intro conjI)
qed

text \<open>
  Claim C7. With an option table that gives \<open>p\<close> a non-empty value, \<open>complete\<close> on the
  single word \<open>-p\<close> with \<open>new_word\<close> true goes to \<open>complete_arg\<close>, which does nothing:
  the collector is returned as it was.
\<close>

theorem complete_new_word_after_port:
  assumes "ssh_options env = Inr options" and "dict_get options ''p'' = Some d" and "d \<noteq> []"
  shows "complete env ans [''-p''] True = Inr ans"
  using assms by (simp add: complete_def complete_arg_def startswith_def truthy_def)


theorem complete_new_word_after_port_witness:
  "ssh_options example_env =
     Inr [(''4'', []), (''6'', []), (''A'', []), (''a'', []), (''C'', []), (''p'', ''port'')] \<and>
   dict_get [(''4'', []), (''6'', []), (''A'', []), (''a'', []), (''C'', []), (''p'', ''port'')] ''p'' =
     Some ''port'' \<and>
   complete example_env \<lparr>match_groups = [(''option'', [(''-p'', [])])]\<rparr> [''-p''] True =
     Inr \<lparr>match_groups = [(''option'', [(''-p'', [])])]\<rparr>"
proof -
  have p: "dict_get [(''4'', []), (''6'', []), (''A'', []), (''a'', []), (''C'', []), (''p'', ''port'')] ''p'' =
      Some ''port''"
    by (simp add: dict_get_def)
  have ne: "''port'' \<noteq> []"
    by simp
  from complete_new_word_after_port [OF example_options p ne]
  have "complete example_env \<lparr>match_groups = [(''option'', [(''-p'', [])])]\<rparr> [''-p''] True =
     Inr \<lparr>match_groups = [(''option'', [(''-p'', [])])]\<rparr>" .
  with example_options p show ?thesis
    by (intro conjI)
qed

end
